theory Spec2Isabelle
  imports Main
begin

section \<open>Strings and the regular expressions of the validators\<close>

text \<open>
  A Python \<open>str\<close> is modelled as a \<^typ>\<open>string\<close>: one \<^typ>\<open>char\<close> per code point, for
  code points below U+0100. On that range \<open>\d\<close> matches exactly \<open>0\<close>..\<open>9\<close> and
  \<open>str.isspace\<close> holds exactly for the code points listed in \<open>isspace\<close> below;
  \<open>len\<close> is \<^const>\<open>length\<close>.
\<close>

definition in_range :: "char \<Rightarrow> char \<Rightarrow> char \<Rightarrow> bool" where
  "in_range lo hi c = ((of_char lo :: nat) \<le> of_char c \<and> (of_char c :: nat) \<le> of_char hi)"

definition upper :: "char \<Rightarrow> bool" where  \<comment> \<open>\<open>[A-Z]\<close>\<close>
  "upper c = in_range (CHR ''A'') (CHR ''Z'') c"

definition lower :: "char \<Rightarrow> bool" where  \<comment> \<open>\<open>[a-z]\<close>\<close>
  "lower c = in_range (CHR ''a'') (CHR ''z'') c"

definition digit :: "char \<Rightarrow> bool" where  \<comment> \<open>\<open>\d\<close> and \<open>[0-9]\<close>\<close>
  "digit c = in_range (CHR ''0'') (CHR ''9'') c"

definition special_chars :: string where  \<comment> \<open>the members of \<open>[!@#$%^&*(),.?":{}|<>]\<close>\<close>
  "special_chars = ''!@#$%^&*(),.?'' @ [CHR 0x22] @ '':{}|<>''"

definition special :: "char \<Rightarrow> bool" where
  "special c = (c \<in> set special_chars)"

definition word_char :: "char \<Rightarrow> bool" where  \<comment> \<open>\<open>[a-zA-Z0-9_]\<close>\<close>
  "word_char c = (lower c \<or> upper c \<or> digit c \<or> c = CHR ''_'')"

definition email_local_char :: "char \<Rightarrow> bool" where  \<comment> \<open>\<open>[a-zA-Z0-9._%+-]\<close>\<close>
  "email_local_char c = (lower c \<or> upper c \<or> digit c \<or> c \<in> set ''._%+-'')"

definition email_domain_char :: "char \<Rightarrow> bool" where  \<comment> \<open>\<open>[a-zA-Z0-9.-]\<close>\<close>
  "email_domain_char c = (lower c \<or> upper c \<or> digit c \<or> c \<in> set ''.-'')"

definition letter :: "char \<Rightarrow> bool" where  \<comment> \<open>\<open>[a-zA-Z]\<close>\<close>
  "letter c = (lower c \<or> upper c)"

text \<open>\<open>re.search(cls, s)\<close> for a pattern that is one character class: scan for a member.\<close>

fun re_search :: "(char \<Rightarrow> bool) \<Rightarrow> string \<Rightarrow> bool" where
  "re_search cls [] = False"
| "re_search cls (c # cs) = (if cls c then True else re_search cls cs)"

text \<open>
  \<open>$\<close> without \<open>re.MULTILINE\<close>: the position is the end of the string, or only one
  newline is left before it.
\<close>

definition at_dollar :: "string \<Rightarrow> bool" where
  "at_dollar s = (s = [] \<or> s = [CHR 0x0A])"

text \<open>
  \<open>re.match(r'^[a-zA-Z0-9_]+$', s)\<close>: the class is consumed greedily; giving characters
  back never helps, since what follows the run would then be a class member, where
  \<open>$\<close> does not match.
\<close>

definition re_match_username :: "string \<Rightarrow> bool" where
  "re_match_username s =
     (takeWhile word_char s \<noteq> [] \<and> at_dollar (dropWhile word_char s))"

text \<open>
  \<open>re.match(r'^[a-zA-Z0-9._%+-]+@[a-zA-Z0-9.-]+\.[a-zA-Z]{2,}$', s)\<close>. The domain class
  contains the dot and the letters, so the matcher tries every point at which the domain
  run may stop (\<open>re_domain\<close>); the local part and the last label are runs that cannot be
  shortened.
\<close>

definition re_tld :: "string \<Rightarrow> bool" where  \<comment> \<open>\<open>\.[a-zA-Z]{2,}$\<close>\<close>
  "re_tld s =
     (case s of
        [] \<Rightarrow> False
      | c # t \<Rightarrow> c = CHR ''.'' \<and> 2 \<le> length (takeWhile letter t) \<and> at_dollar (dropWhile letter t))"

fun re_domain :: "string \<Rightarrow> bool" where  \<comment> \<open>\<open>[a-zA-Z0-9.-]+\<close> followed by \<open>re_tld\<close>\<close>
  "re_domain [] = False"
| "re_domain (c # cs) = (email_domain_char c \<and> (re_tld cs \<or> re_domain cs))"

definition re_match_email :: "string \<Rightarrow> bool" where
  "re_match_email s =
     (takeWhile email_local_char s \<noteq> [] \<and>
      (case dropWhile email_local_char s of
         [] \<Rightarrow> False
       | c # r \<Rightarrow> c = CHR ''@'' \<and> re_domain r))"

text \<open>\<open>str.strip()\<close>: leading and trailing whitespace removed.\<close>

definition isspace :: "char \<Rightarrow> bool" where
  "isspace c = (in_range (CHR 0x09) (CHR 0x0D) c \<or> in_range (CHR 0x1C) (CHR 0x20) c
                \<or> c = CHR 0x85 \<or> c = CHR 0xA0)"

definition strip :: "string \<Rightarrow> string" where
  "strip s = rev (dropWhile isspace (rev (dropWhile isspace s)))"

section \<open>Validators\<close>

definition validate_email :: "string \<Rightarrow> bool" where
  "validate_email email_address = re_match_email email_address"

definition validate_password :: "string \<Rightarrow> bool \<times> string" where
  "validate_password password =
     (if length password < 8 then
        (False, ''Password must be at least 8 characters long'')
      else if \<not> re_search upper password then
        (False, ''Password must contain at least one uppercase letter'')
      else if \<not> re_search lower password then
        (False, ''Password must contain at least one lowercase letter'')
      else if \<not> re_search digit password then
        (False, ''Password must contain at least one digit'')
      else if \<not> re_search special password then
        (False, ''Password must contain at least one special character'')
      else (True, ''Password is valid''))"

definition validate_username :: "string \<Rightarrow> bool \<times> string" where
  "validate_username name =
     (if length name < 3 \<or> length name > 20 then
        (False, ''Username must be between 3 and 20 characters'')
      else if \<not> re_match_username name then
        (False, ''Username can only contain letters, numbers, and underscores'')
      else (True, ''Username is valid''))"

section \<open>The store\<close>

text \<open>
  The two tables of \<open>init_db\<close>. A timestamp is a number of microseconds; a nullable
  column is an \<open>option\<close>. A table is the list of its rows in insertion order. The
  64-bit range of an SQLite integer is not modelled: the counter is an \<^typ>\<open>int\<close>.
\<close>

record user =
  user_id :: nat
  username :: string
  email :: string
  password_hash :: string
  created_at :: int
  last_login :: "int option"
  failed_login_attempts :: int
  account_locked_until :: "int option"

record login_attempt =
  attempt_username :: string
  ip_address :: string
  success :: bool
  timestamp :: int

record db =
  users :: "user list"
  login_attempts :: "login_attempt list"

definition init_db :: db where
  "init_db = \<lparr>users = [], login_attempts = []\<rparr>"

text \<open>
  What a call reads from outside the store: the clock readings and whether the store
  raises in each of the \<open>try\<close> blocks. A block that raises leaves the store as it was
  (the connection's context manager rolls back).
\<close>

record env =
  now_check :: int  \<comment> \<open>\<open>datetime.now()\<close> in \<open>is_account_locked\<close>\<close>
  now_fail :: int  \<comment> \<open>\<open>datetime.now()\<close> in \<open>increment_failed_login\<close>\<close>
  current_timestamp :: int  \<comment> \<open>\<open>CURRENT_TIMESTAMP\<close> of the store\<close>
  lock_check_raises :: bool  \<comment> \<open>the store raises inside \<open>is_account_locked\<close>\<close>
  select_raises :: bool  \<comment> \<open>\<open>sqlite3.Error\<close> in the handler's own block\<close>
  update_raises :: bool  \<comment> \<open>the store raises inside the counter update\<close>
  log_raises :: bool  \<comment> \<open>\<open>sqlite3.Error\<close> inside \<open>log_login_attempt\<close>\<close>

definition minutes_30 :: int where  \<comment> \<open>\<open>timedelta(minutes=30)\<close>\<close>
  "minutes_30 = 30 * 60 * 1000000"

text \<open>\<open>SELECT ... FROM users WHERE username = ?\<close> with \<open>fetchone()\<close>.\<close>

definition select_user :: "string \<Rightarrow> db \<Rightarrow> user option" where
  "select_user name d = find (\<lambda>u. username u = name) (users d)"

text \<open>\<open>UPDATE users SET ... WHERE username = ?\<close>.\<close>

definition update_users :: "string \<Rightarrow> (user \<Rightarrow> user) \<Rightarrow> db \<Rightarrow> db" where
  "update_users name f d =
     d\<lparr>users := map (\<lambda>u. if username u = name then f u else u) (users d)\<rparr>"

definition log_login_attempt :: "bool \<Rightarrow> int \<Rightarrow> string \<Rightarrow> string \<Rightarrow> bool \<Rightarrow> db \<Rightarrow> db" where
  "log_login_attempt raises ts name ip ok d =
     (if raises then d
      else d\<lparr>login_attempts := login_attempts d @
             [\<lparr>attempt_username = name, ip_address = ip, success = ok, timestamp = ts\<rparr>]\<rparr>)"

definition is_account_locked :: "bool \<Rightarrow> int \<Rightarrow> string \<Rightarrow> db \<Rightarrow> bool \<times> db" where
  "is_account_locked raises now name d =
     (if raises then (False, d)
      else case select_user name d of
        None \<Rightarrow> (False, d)
      | Some row \<Rightarrow>
          (case account_locked_until row of
             None \<Rightarrow> (False, d)
           | Some lock_time \<Rightarrow>
               if now < lock_time then (True, d)
               else (False,
                     update_users name
                       (\<lambda>u. u\<lparr>account_locked_until := None, failed_login_attempts := 0\<rparr>) d)))"

definition increment_failed_login :: "bool \<Rightarrow> int \<Rightarrow> string \<Rightarrow> db \<Rightarrow> db" where
  "increment_failed_login raises now name d =
     (if raises then d
      else
        let d1 = update_users name
                   (\<lambda>u. u\<lparr>failed_login_attempts := failed_login_attempts u + 1\<rparr>) d
        in case select_user name d1 of
             None \<Rightarrow> d1
           | Some row \<Rightarrow>
               if failed_login_attempts row \<ge> 5 then
                 update_users name (\<lambda>u. u\<lparr>account_locked_until := Some (now + minutes_30)\<rparr>) d1
               else d1)"

definition reset_failed_login :: "bool \<Rightarrow> int \<Rightarrow> string \<Rightarrow> db \<Rightarrow> db" where
  "reset_failed_login raises ts name d =
     (if raises then d
      else update_users name
             (\<lambda>u. u\<lparr>failed_login_attempts := 0, account_locked_until := None,
                     last_login := Some ts\<rparr>) d)"

section \<open>The request handlers\<close>

text \<open>
  A response is the message flashed with its category, the page returned, and what the
  call wrote into the session (\<open>user_id\<close> and \<open>username\<close>), if anything.
\<close>

datatype page = Render_template string | Redirect string

record response =
  flash :: "string \<times> string"
  page :: page
  session_user :: "(nat \<times> string) option"

definition flash_render :: "string \<Rightarrow> string \<Rightarrow> response" where
  "flash_render msg template =
     \<lparr>flash = (msg, ''error''), page = Render_template template, session_user = None\<rparr>"

definition fields_required :: response where
  "fields_required = flash_render ''Username and password are required'' ''login.html''"

definition locked :: response where
  "locked = flash_render
     ''Account is temporarily locked due to multiple failed login attempts. Please try again later.''
     ''login.html''"

definition invalid_credentials :: response where
  "invalid_credentials = flash_render ''Invalid username or password'' ''login.html''"

definition login_failed :: response where
  "login_failed = flash_render ''Login failed. Please try again.'' ''login.html''"

definition login_successful :: "user \<Rightarrow> response" where
  "login_successful row =
     \<lparr>flash = (''Login successful!'', ''success''), page = Redirect ''dashboard'',
      session_user = Some (user_id row, username row)\<rparr>"

text \<open>
  The body of \<open>login\<close> for a POST request. \<open>check_password_hash\<close> is the hashing
  library's verification function, taken as a parameter.
\<close>

definition login ::
  "(string \<Rightarrow> string \<Rightarrow> bool) \<Rightarrow> env \<Rightarrow> string \<Rightarrow> string \<Rightarrow> string \<Rightarrow> db \<Rightarrow> response \<times> db" where
  "login check_password_hash e form_username form_password ip d =
     (let name = strip form_username; password = form_password in
      if name = [] \<or> password = [] then (fields_required, d)
      else
        case is_account_locked (lock_check_raises e) (now_check e) name d of
          (True, d1) \<Rightarrow>
            (locked, log_login_attempt (log_raises e) (current_timestamp e) name ip False d1)
        | (False, d1) \<Rightarrow>
            if select_raises e then (login_failed, d1)
            else
              case select_user name d1 of
                Some row \<Rightarrow>
                  if check_password_hash (password_hash row) password then
                    (login_successful row,
                     log_login_attempt (log_raises e) (current_timestamp e) name ip True
                       (reset_failed_login (update_raises e) (current_timestamp e) name d1))
                  else
                    (invalid_credentials,
                     log_login_attempt (log_raises e) (current_timestamp e) name ip False
                       (increment_failed_login (update_raises e) (now_fail e) name d1))
              | None \<Rightarrow>
                  (invalid_credentials,
                   log_login_attempt (log_raises e) (current_timestamp e) name ip False
                     (increment_failed_login (update_raises e) (now_fail e) name d1)))"

definition register_error :: "string \<Rightarrow> response" where
  "register_error msg = flash_render msg ''register.html''"

definition registration_successful :: response where
  "registration_successful =
     \<lparr>flash = (''Registration successful! Please log in.'', ''success''),
      page = Redirect ''login'', session_user = None\<rparr>"

text \<open>\<open>INSERT INTO users (username, email, password_hash)\<close>: the other columns take their defaults.\<close>

definition insert_user :: "int \<Rightarrow> string \<Rightarrow> string \<Rightarrow> string \<Rightarrow> db \<Rightarrow> db" where
  "insert_user ts name email_address hash d =
     d\<lparr>users := users d @
        [\<lparr>user_id = Suc (fold max (map user_id (users d)) 0), username = name,
          email = email_address, password_hash = hash, created_at = ts, last_login = None,
          failed_login_attempts = 0, account_locked_until = None\<rparr>]\<rparr>"

text \<open>
  The body of \<open>register\<close> for a POST request. \<open>generate_password_hash\<close> is the hashing
  library's function, taken as a parameter (with the salt it draws); \<open>select_raises\<close>
  stands here for an \<open>sqlite3.Error\<close> in the handler's block.
\<close>

definition register ::
  "(string \<Rightarrow> string) \<Rightarrow> env \<Rightarrow> string \<Rightarrow> string \<Rightarrow> string \<Rightarrow> string \<Rightarrow> db \<Rightarrow> response \<times> db" where
  "register generate_password_hash e form_username form_email form_password form_confirm d =
     (let name = strip form_username; email_address = strip form_email;
          password = form_password; confirm_password = form_confirm in
      if name = [] \<or> email_address = [] \<or> password = [] then
        (register_error ''All fields are required'', d)
      else if \<not> fst (validate_username name) then
        (register_error (snd (validate_username name)), d)
      else if \<not> validate_email email_address then
        (register_error ''Invalid email format'', d)
      else if \<not> fst (validate_password password) then
        (register_error (snd (validate_password password)), d)
      else if password \<noteq> confirm_password then
        (register_error ''Passwords do not match'', d)
      else if select_raises e then
        (register_error ''Registration failed. Please try again.'', d)
      else if find (\<lambda>u. username u = name \<or> email u = email_address) (users d) \<noteq> None then
        (register_error ''Username or email already exists'', d)
      else
        (registration_successful,
         insert_user (current_timestamp e) name email_address
           (generate_password_hash password) d))"

section \<open>Sequences of requests\<close>

datatype request =
  Register env string string string string
| Login env string string string

fun handle ::
  "(string \<Rightarrow> string) \<Rightarrow> (string \<Rightarrow> string \<Rightarrow> bool) \<Rightarrow> request \<Rightarrow> db \<Rightarrow> db" where
  "handle gen chk (Register e n m p c) d = snd (register gen e n m p c d)"
| "handle gen chk (Login e n p ip) d = snd (login chk e n p ip d)"

fun request_env :: "request \<Rightarrow> env" where
  "request_env (Register e n m p c) = e"
| "request_env (Login e n p ip) = e"

definition run ::
  "(string \<Rightarrow> string) \<Rightarrow> (string \<Rightarrow> string \<Rightarrow> bool) \<Rightarrow> request list \<Rightarrow> db \<Rightarrow> db" where
  "run gen chk rs d = fold (handle gen chk) rs d"

section \<open>Notions used in the statements\<close>

text \<open>The five password rules and the username alphabet, as sets of characters.\<close>

definition has_uppercase :: "string \<Rightarrow> bool" where
  "has_uppercase s = (\<exists>c\<in>set s. c \<in> set ''ABCDEFGHIJKLMNOPQRSTUVWXYZ'')"

definition has_lowercase :: "string \<Rightarrow> bool" where
  "has_lowercase s = (\<exists>c\<in>set s. c \<in> set ''abcdefghijklmnopqrstuvwxyz'')"

definition has_digit :: "string \<Rightarrow> bool" where
  "has_digit s = (\<exists>c\<in>set s. c \<in> set ''0123456789'')"

definition has_special :: "string \<Rightarrow> bool" where
  "has_special s = (\<exists>c\<in>set s. c \<in> set special_chars)"

definition username_chars :: string where
  "username_chars = ''abcdefghijklmnopqrstuvwxyzABCDEFGHIJKLMNOPQRSTUVWXYZ0123456789_''"

text \<open>
  A stand-in for the hashing library and a store that raises nothing, for the concrete
  runs below.
\<close>

definition example_hash :: "string \<Rightarrow> string" where
  "example_hash password = ''hash:'' @ password"

definition example_check :: "string \<Rightarrow> string \<Rightarrow> bool" where
  "example_check hash password = (hash = ''hash:'' @ password)"

definition quiet :: "int \<Rightarrow> env" where
  "quiet t = \<lparr>now_check = t, now_fail = t, current_timestamp = t, lock_check_raises = False,
              select_raises = False, update_raises = False, log_raises = False\<rparr>"

text \<open>The same clock readings with the store raising inside one of the blocks.\<close>

definition raising_lock_check :: "int \<Rightarrow> env" where
  "raising_lock_check t =
     \<lparr>now_check = t, now_fail = t, current_timestamp = t, lock_check_raises = True,
      select_raises = False, update_raises = False, log_raises = False\<rparr>"

definition raising_update :: "int \<Rightarrow> env" where
  "raising_update t =
     \<lparr>now_check = t, now_fail = t, current_timestamp = t, lock_check_raises = False,
      select_raises = False, update_raises = True, log_raises = False\<rparr>"

text \<open>A registered account with a given failure counter and lock, alone in the store.\<close>

definition alice :: "int \<Rightarrow> int option \<Rightarrow> user" where
  "alice n lock =
     \<lparr>user_id = 1, username = ''alice'', email = ''alice@example.com'',
      password_hash = ''hash:Abc12345!'', created_at = 0, last_login = None,
      failed_login_attempts = n, account_locked_until = lock\<rparr>"

definition store_of :: "user \<Rightarrow> db" where
  "store_of row = \<lparr>users = [row], login_attempts = []\<rparr>"

text \<open>
  The invariant of the store: usernames are unique, no counter exceeds the threshold, and
  a counter at the threshold comes with a lock.
\<close>

definition store_inv :: "db \<Rightarrow> bool" where
  "store_inv d =
     (distinct (map username (users d)) \<and>
      (\<forall>u\<in>set (users d). failed_login_attempts u \<le> 5 \<and>
         (account_locked_until u = None \<longrightarrow> failed_login_attempts u < 5)))"

section \<open>Character classes and searches\<close>

lemma in_range_char_of:
  assumes "in_range lo hi c"
  shows "c \<in> set (map char_of [of_char lo ..< Suc (of_char hi) :: nat])"
proof -
  have "(of_char c :: nat) \<in> {of_char lo .. of_char hi}"
    using assms by (simp add: in_range_def)
  then have "(of_char c :: nat) \<in> set [of_char lo ..< Suc (of_char hi)]"
    by (simp only: set_upt atLeastLessThanSuc_atLeastAtMost)
  then have "char_of (of_char c :: nat) \<in> char_of ` set [of_char lo ..< Suc (of_char hi) :: nat]"
    by (rule imageI)
  then show ?thesis
    by (simp only: char_of_char set_map)
qed

lemma upper_iff: "upper c \<longleftrightarrow> c \<in> set ''ABCDEFGHIJKLMNOPQRSTUVWXYZ''"
proof
  assume "upper c"
  then have "c \<in> set (map char_of [of_char CHR ''A'' ..< Suc (of_char CHR ''Z'') :: nat])"
    unfolding upper_def by (rule in_range_char_of)
  then show "c \<in> set ''ABCDEFGHIJKLMNOPQRSTUVWXYZ''"
    by (simp add: upt_rec char_of_def bit_Suc_0_iff)
next
  assume "c \<in> set ''ABCDEFGHIJKLMNOPQRSTUVWXYZ''"
  then show "upper c"
    by (auto simp: upper_def in_range_def)
qed

lemma lower_iff: "lower c \<longleftrightarrow> c \<in> set ''abcdefghijklmnopqrstuvwxyz''"
proof
  assume "lower c"
  then have "c \<in> set (map char_of [of_char CHR ''a'' ..< Suc (of_char CHR ''z'') :: nat])"
    unfolding lower_def by (rule in_range_char_of)
  then show "c \<in> set ''abcdefghijklmnopqrstuvwxyz''"
    by (simp add: upt_rec char_of_def bit_Suc_0_iff)
next
  assume "c \<in> set ''abcdefghijklmnopqrstuvwxyz''"
  then show "lower c"
    by (auto simp: lower_def in_range_def)
qed

lemma digit_iff: "digit c \<longleftrightarrow> c \<in> set ''0123456789''"
proof
  assume "digit c"
  then have "c \<in> set (map char_of [of_char CHR ''0'' ..< Suc (of_char CHR ''9'') :: nat])"
    unfolding digit_def by (rule in_range_char_of)
  then show "c \<in> set ''0123456789''"
    by (simp add: upt_rec char_of_def bit_Suc_0_iff)
next
  assume "c \<in> set ''0123456789''"
  then show "digit c"
    by (auto simp: digit_def in_range_def)
qed

lemma word_char_iff: "word_char c \<longleftrightarrow> c \<in> set username_chars"
  unfolding word_char_def upper_iff lower_iff digit_iff username_chars_def by auto

lemma re_search_iff: "re_search cls s \<longleftrightarrow> (\<exists>c\<in>set s. cls c)"
  by (induction s) auto

lemma search_upper: "re_search upper s = has_uppercase s"
  by (simp add: re_search_iff has_uppercase_def upper_iff)

lemma search_lower: "re_search lower s = has_lowercase s"
  by (simp add: re_search_iff has_lowercase_def lower_iff)

lemma search_digit: "re_search digit s = has_digit s"
  by (simp add: re_search_iff has_digit_def digit_iff)

lemma search_special: "re_search special s = has_special s"
  by (simp add: re_search_iff has_special_def special_def)

section \<open>The validators\<close>

text \<open>
  Claim C5. \<open>validate_password\<close> checks length at least 8, an uppercase letter, a lowercase
  letter, a digit and a special character, in this order, and answers with the reason of
  the first rule that fails, whatever the later rules would say; a string shorter than 8
  always gets the length reason; when the five rules hold the answer is
  \<open>(True, ''Password is valid'')\<close>.
\<close>

theorem validate_password_first_failing_rule:
  "(length s < 8 \<longrightarrow>
      validate_password s = (False, ''Password must be at least 8 characters long'')) \<and>
   (8 \<le> length s \<and> \<not> has_uppercase s \<longrightarrow>
      validate_password s = (False, ''Password must contain at least one uppercase letter'')) \<and>
   (8 \<le> length s \<and> has_uppercase s \<and> \<not> has_lowercase s \<longrightarrow>
      validate_password s = (False, ''Password must contain at least one lowercase letter'')) \<and>
   (8 \<le> length s \<and> has_uppercase s \<and> has_lowercase s \<and> \<not> has_digit s \<longrightarrow>
      validate_password s = (False, ''Password must contain at least one digit'')) \<and>
   (8 \<le> length s \<and> has_uppercase s \<and> has_lowercase s \<and> has_digit s \<and> \<not> has_special s \<longrightarrow>
      validate_password s = (False, ''Password must contain at least one special character'')) \<and>
   (8 \<le> length s \<and> has_uppercase s \<and> has_lowercase s \<and> has_digit s \<and> has_special s \<longrightarrow>
      validate_password s = (True, ''Password is valid''))"
  by (simp add: validate_password_def search_upper search_lower search_digit search_special)

theorem validate_password_first_failing_rule_witness:
  "length ''Ab1!'' < 8 \<and>
   validate_password ''Ab1!'' = (False, ''Password must be at least 8 characters long'') \<and>
   8 \<le> length ''password'' \<and> \<not> has_uppercase ''password'' \<and>
   validate_password ''password'' = (False, ''Password must contain at least one uppercase letter'') \<and>
   8 \<le> length ''NOLOWERCASE'' \<and> has_uppercase ''NOLOWERCASE'' \<and> \<not> has_lowercase ''NOLOWERCASE'' \<and>
   validate_password ''NOLOWERCASE'' = (False, ''Password must contain at least one lowercase letter'') \<and>
   8 \<le> length ''NoNumbers'' \<and> has_uppercase ''NoNumbers'' \<and> has_lowercase ''NoNumbers'' \<and>
   \<not> has_digit ''NoNumbers'' \<and>
   validate_password ''NoNumbers'' = (False, ''Password must contain at least one digit'') \<and>
   8 \<le> length ''NoSpecial1'' \<and> has_uppercase ''NoSpecial1'' \<and> has_lowercase ''NoSpecial1'' \<and>
   has_digit ''NoSpecial1'' \<and> \<not> has_special ''NoSpecial1'' \<and>
   validate_password ''NoSpecial1'' = (False, ''Password must contain at least one special character'') \<and>
   8 \<le> length ''Abc12345!'' \<and> has_uppercase ''Abc12345!'' \<and> has_lowercase ''Abc12345!'' \<and>
   has_digit ''Abc12345!'' \<and> has_special ''Abc12345!'' \<and>
   validate_password ''Abc12345!'' = (True, ''Password is valid'')"
  using validate_password_first_failing_rule [of "''Ab1!''"]
    validate_password_first_failing_rule [of "''password''"]
    validate_password_first_failing_rule [of "''NOLOWERCASE''"]
    validate_password_first_failing_rule [of "''NoNumbers''"]
    validate_password_first_failing_rule [of "''NoSpecial1''"]
    validate_password_first_failing_rule [of "''Abc12345!''"]
  by (simp add: has_uppercase_def has_lowercase_def has_digit_def has_special_def special_chars_def)

text \<open>
  Claim C6. \<open>validate_username\<close> is to fail whenever some character of the string is
  outside \<open>[A-Za-z0-9_]\<close>. The string \<open>abc\<close> followed by a newline has length 4 and holds
  a newline, which is not in the alphabet, and the validator accepts it: \<open>$\<close> in the
  pattern matches before a final newline.
\<close>

theorem validate_username_trailing_newline:
  "length (''abc'' @ [CHR 0x0A]) = 4 \<and> CHR 0x0A \<in> set (''abc'' @ [CHR 0x0A]) \<and>
   CHR 0x0A \<notin> set username_chars \<and>
   validate_username (''abc'' @ [CHR 0x0A]) = (True, ''Username is valid'')"
  by (simp add: validate_username_def re_match_username_def at_dollar_def word_char_def
      lower_def upper_def digit_def in_range_def username_chars_def)

section \<open>The store and the login handler\<close>

lemma find_update:
  assumes "\<And>u. username (f u) = username u"
  shows "find (\<lambda>u. username u = n) (map (\<lambda>u. if username u = m then f u else u) us) =
         (if n = m then map_option f (find (\<lambda>u. username u = n) us)
          else find (\<lambda>u. username u = n) us)"
  using assms by (induction us) auto

lemma select_user_update:
  assumes "\<And>u. username (f u) = username u"
  shows "select_user n (update_users m f d) =
         (if n = m then map_option f (select_user n d) else select_user n d)"
  using find_update [OF assms] by (simp add: select_user_def update_users_def)

lemma select_user_log [simp]:
  "select_user n (log_login_attempt r ts m ip ok d) = select_user n d"
  by (simp add: select_user_def log_login_attempt_def)

lemma users_log [simp]: "users (log_login_attempt r ts m ip ok d) = users d"
  by (simp add: log_login_attempt_def)

lemma login_attempts_update [simp]: "login_attempts (update_users m f d) = login_attempts d"
  by (simp add: update_users_def)

lemma select_user_locked:
  "select_user n (snd (is_account_locked r now m d)) =
     (if n = m \<and> \<not> r \<and> (\<exists>row t. select_user m d = Some row \<and> account_locked_until row = Some t \<and> t \<le> now)
      then map_option (\<lambda>u. u\<lparr>account_locked_until := None, failed_login_attempts := 0\<rparr>) (select_user n d)
      else select_user n d)"
  by (auto simp: is_account_locked_def select_user_update split: option.splits)

lemma select_user_increment_other:
  "n \<noteq> m \<Longrightarrow> select_user n (increment_failed_login r now m d) = select_user n d"
  by (simp add: increment_failed_login_def Let_def select_user_update split: option.splits)

lemma select_user_reset_other:
  "n \<noteq> m \<Longrightarrow> select_user n (reset_failed_login r ts m d) = select_user n d"
  by (simp add: reset_failed_login_def select_user_update)

lemma select_user_increment:
  "select_user n (increment_failed_login False now n d) =
     map_option (\<lambda>u. if failed_login_attempts u + 1 \<ge> 5
        then u\<lparr>failed_login_attempts := failed_login_attempts u + 1, account_locked_until := Some (now + minutes_30)\<rparr>
        else u\<lparr>failed_login_attempts := failed_login_attempts u + 1\<rparr>) (select_user n d)"
  by (cases "select_user n d") (simp_all add: increment_failed_login_def Let_def select_user_update)

lemma find_app:
  "find P xs = Some x \<Longrightarrow> find P (xs @ ys) = Some x"
  by (induction xs) (auto split: if_splits)

lemma select_user_insert:
  "select_user n d = Some row \<Longrightarrow> select_user n (insert_user ts m em h d) = Some row"
  by (simp add: select_user_def insert_user_def find_app)

lemma select_user_register:
  "select_user n d = Some row \<Longrightarrow> select_user n (snd (register gen e fn fm p c d)) = Some row"
  by (simp add: register_def Let_def select_user_insert)

lemma select_user_login_other:
  "strip fn \<noteq> n \<Longrightarrow> select_user n (snd (login chk e fn p ip d)) = select_user n d"
  by (simp add: login_def Let_def case_prod_beta select_user_locked select_user_increment_other
      select_user_reset_other split: bool.splits option.splits)

lemma select_user_Some:
  "select_user n d = Some row \<Longrightarrow> row \<in> set (users d) \<and> username row = n"
  unfolding select_user_def by (auto simp: find_Some_iff)

lemma select_user_None:
  "select_user n d = None \<longleftrightarrow> (\<forall>u\<in>set (users d). username u \<noteq> n)"
  unfolding select_user_def by (auto simp: find_None_iff)

lemma update_users_absent:
  "select_user n d = None \<Longrightarrow> update_users n f d = d"
  by (simp add: select_user_None update_users_def map_idI)

lemma is_account_locked_absent:
  "select_user n d = None \<Longrightarrow> is_account_locked r now n d = (False, d)"
  by (simp add: is_account_locked_def)

lemma increment_absent:
  "select_user n d = None \<Longrightarrow> increment_failed_login r now n d = d"
  by (simp add: increment_failed_login_def update_users_absent)


lemma login_locked:
  assumes "select_user (strip n) d = Some row" and "account_locked_until row = Some t"
    and "now_check e < t" and "\<not> lock_check_raises e" and "strip n \<noteq> []" and "p \<noteq> []"
  shows "login chk e n p ip d =
    (locked, log_login_attempt (log_raises e) (current_timestamp e) (strip n) ip False d)"
  using assms by (simp add: login_def Let_def is_account_locked_def)

lemma login_success_cases:
  assumes "flash (fst (login chk e n p ip d)) = (''Login successful!'', ''success'')"
  shows "\<exists>row. select_user (strip n) (snd (is_account_locked (lock_check_raises e) (now_check e) (strip n) d)) = Some row \<and>
          login chk e n p ip d = (login_successful row,
            log_login_attempt (log_raises e) (current_timestamp e) (strip n) ip True
              (reset_failed_login (update_raises e) (current_timestamp e) (strip n)
                 (snd (is_account_locked (lock_check_raises e) (now_check e) (strip n) d))))"
  using assms
  by (simp add: login_def Let_def case_prod_beta fields_required_def locked_def login_failed_def
      invalid_credentials_def flash_render_def split: if_splits bool.splits option.splits)

lemma strip_alice: "strip ''alice'' = ''alice''"
  by (simp add: strip_def isspace_def in_range_def)

lemma select_alice: "select_user ''alice'' (store_of (alice c l)) = Some (alice c l)"
  by (simp add: select_user_def store_of_def alice_def)

section \<open>Lockout and login\<close>

text \<open>
  Claim C4, as amended. For an account whose \<open>account_locked_until\<close> is set, and a lock
  check in which the store does not raise: before that time \<open>is_account_locked\<close>
  answers true and leaves the store as it is; at or after that time it clears the lock,
  resets the counter to 0 and answers false. Nothing else clears a lock that is set: a
  request handled without an error in the lock check that leaves the account without a
  lock is a login for this username, with a password, whose lock check ran at or after
  the lock time. (The handlers are the only transitions: the source starts no timer.)
\<close>

theorem is_account_locked_lazy_unlock:
  assumes "select_user name d = Some row" and "account_locked_until row = Some lock_time"
  shows
   "(now < lock_time \<longrightarrow> is_account_locked False now name d = (True, d)) \<and>
    (lock_time \<le> now \<longrightarrow>
       is_account_locked False now name d =
         (False, update_users name
            (\<lambda>u. u\<lparr>account_locked_until := None, failed_login_attempts := 0\<rparr>) d) \<and>
       select_user name (snd (is_account_locked False now name d)) =
         Some (row\<lparr>account_locked_until := None, failed_login_attempts := 0\<rparr>)) \<and>
    (\<forall>req row'. \<not> lock_check_raises (request_env req) \<and>
        select_user name (handle gen chk req d) = Some row' \<and> account_locked_until row' = None \<longrightarrow>
        (\<exists>e n p ip. req = Login e n p ip \<and> strip n = name \<and> p \<noteq> [] \<and> lock_time \<le> now_check e))"
proof (intro conjI allI impI)
  assume "now < lock_time"
  with assms show "is_account_locked False now name d = (True, d)"
    by (simp add: is_account_locked_def)
next
  assume "lock_time \<le> now"
  with assms show "is_account_locked False now name d =
         (False, update_users name
            (\<lambda>u. u\<lparr>account_locked_until := None, failed_login_attempts := 0\<rparr>) d)"
    by (simp add: is_account_locked_def)
next
  assume "lock_time \<le> now"
  with assms show "select_user name (snd (is_account_locked False now name d)) =
         Some (row\<lparr>account_locked_until := None, failed_login_attempts := 0\<rparr>)"
    by (simp add: is_account_locked_def select_user_update)
next
  fix req row'
  assume a: "\<not> lock_check_raises (request_env req) \<and>
        select_user name (handle gen chk req d) = Some row' \<and> account_locked_until row' = None"
  show "\<exists>e n p ip. req = Login e n p ip \<and> strip n = name \<and> p \<noteq> [] \<and> lock_time \<le> now_check e"
  proof (cases req)
    case (Register e n m p c)
    with a assms show ?thesis
      by (simp add: select_user_register)
  next
    case (Login e n p ip)
    have same: "strip n = name"
    proof (rule ccontr)
      assume "strip n \<noteq> name"
      then have "select_user name (snd (login chk e n p ip d)) = select_user name d"
        by (rule select_user_login_other)
      with a assms Login show False by simp
    qed
    have nonempty: "strip n \<noteq> [] \<and> p \<noteq> []"
    proof (rule ccontr)
      assume "\<not> (strip n \<noteq> [] \<and> p \<noteq> [])"
      then have "login chk e n p ip d = (fields_required, d)"
        by (auto simp: login_def Let_def)
      with a assms Login show False by simp
    qed
    have "lock_time \<le> now_check e"
    proof (rule ccontr)
      assume "\<not> lock_time \<le> now_check e"
      then have "now_check e < lock_time" by simp
      with assms same nonempty a Login
      have "login chk e n p ip d =
        (locked, log_login_attempt (log_raises e) (current_timestamp e) (strip n) ip False d)"
        by (intro login_locked) auto
      with a assms Login show False by simp
    qed
    with Login same nonempty show ?thesis by simp
  qed
qed

theorem is_account_locked_lazy_unlock_witness:
  "select_user ''alice'' (store_of (alice 5 (Some 100))) = Some (alice 5 (Some 100)) \<and>
   account_locked_until (alice 5 (Some 100)) = Some 100 \<and>
   is_account_locked False 99 ''alice'' (store_of (alice 5 (Some 100))) =
     (True, store_of (alice 5 (Some 100))) \<and>
   fst (is_account_locked False 100 ''alice'' (store_of (alice 5 (Some 100)))) = False \<and>
   select_user ''alice'' (snd (is_account_locked False 100 ''alice'' (store_of (alice 5 (Some 100))))) =
     Some (alice 0 None) \<and>
   select_user ''alice''
     (handle example_hash example_check (Login (quiet 100) ''alice'' ''wrong'' ''1.2.3.4'')
        (store_of (alice 5 (Some 100)))) = Some (alice 1 None) \<and>
   (\<exists>e n p ip. Login (quiet 100) ''alice'' ''wrong'' ''1.2.3.4'' = Login e n p ip \<and>
      strip n = ''alice'' \<and> p \<noteq> [] \<and> 100 \<le> now_check e) \<and>
   \<not> (\<exists>row'. select_user ''alice''
           (handle example_hash example_check (Login (quiet 50) ''alice'' ''Abc12345!'' ''1.2.3.4'')
              (store_of (alice 5 (Some 100)))) = Some row' \<and>
         account_locked_until row' = None)"
proof -
  have h1: "select_user ''alice'' (store_of (alice 5 (Some 100))) = Some (alice 5 (Some 100))"
    by (rule select_alice)
  have h2: "account_locked_until (alice 5 (Some 100)) = Some 100"
    by (simp add: alice_def)
  have reset: "(alice 5 (Some 100))\<lparr>account_locked_until := None, failed_login_attempts := 0\<rparr> =
      alice 0 None"
    by (simp add: alice_def)
  from is_account_locked_lazy_unlock
    [where now = 99 and gen = example_hash and chk = example_check, OF h1 h2]
  have before: "is_account_locked False 99 ''alice'' (store_of (alice 5 (Some 100))) =
     (True, store_of (alice 5 (Some 100)))"
    by simp
  have le: "(100::int) \<le> 100"
    by simp
  note at_expiry = is_account_locked_lazy_unlock
    [where now = 100 and gen = example_hash and chk = example_check, OF h1 h2,
     THEN conjunct2, THEN conjunct1, THEN mp, OF le]
  have "fst (is_account_locked False 100 ''alice'' (store_of (alice 5 (Some 100)))) = False"
    by (simp add: at_expiry [THEN conjunct1])
  moreover have "select_user ''alice''
      (snd (is_account_locked False 100 ''alice'' (store_of (alice 5 (Some 100))))) =
        Some (alice 0 None)"
    using at_expiry [THEN conjunct2] by (simp only: reset)
  ultimately
  have after: "fst (is_account_locked False 100 ''alice'' (store_of (alice 5 (Some 100)))) = False \<and>
      select_user ''alice'' (snd (is_account_locked False 100 ''alice'' (store_of (alice 5 (Some 100))))) =
        Some (alice 0 None)"
    by (rule conjI)
  note only_path = is_account_locked_lazy_unlock
    [where now = 100 and gen = example_hash and chk = example_check, OF h1 h2,
     THEN conjunct2, THEN conjunct2, rule_format]
  have handled: "select_user ''alice''
     (handle example_hash example_check (Login (quiet 100) ''alice'' ''wrong'' ''1.2.3.4'')
        (store_of (alice 5 (Some 100)))) = Some (alice 1 None)"
    by code_simp
  have cleared: "\<not> lock_check_raises (request_env (Login (quiet 100) ''alice'' ''wrong'' ''1.2.3.4'')) \<and>
      select_user ''alice''
        (handle example_hash example_check (Login (quiet 100) ''alice'' ''wrong'' ''1.2.3.4'')
           (store_of (alice 5 (Some 100)))) = Some (alice 1 None) \<and>
      account_locked_until (alice 1 None) = None"
    using handled by (simp add: quiet_def alice_def)
  have positive: "\<exists>e n p ip. Login (quiet 100) ''alice'' ''wrong'' ''1.2.3.4'' = Login e n p ip \<and>
      strip n = ''alice'' \<and> p \<noteq> [] \<and> 100 \<le> now_check e"
    by (rule only_path [OF cleared])
  have negative: "\<not> (\<exists>row'. select_user ''alice''
           (handle example_hash example_check (Login (quiet 50) ''alice'' ''Abc12345!'' ''1.2.3.4'')
              (store_of (alice 5 (Some 100)))) = Some row' \<and>
         account_locked_until row' = None)"
  proof
    assume "\<exists>row'. select_user ''alice''
           (handle example_hash example_check (Login (quiet 50) ''alice'' ''Abc12345!'' ''1.2.3.4'')
              (store_of (alice 5 (Some 100)))) = Some row' \<and>
         account_locked_until row' = None"
    then obtain row' where "\<not> lock_check_raises
          (request_env (Login (quiet 50) ''alice'' ''Abc12345!'' ''1.2.3.4'')) \<and>
        select_user ''alice''
           (handle example_hash example_check (Login (quiet 50) ''alice'' ''Abc12345!'' ''1.2.3.4'')
              (store_of (alice 5 (Some 100)))) = Some row' \<and>
        account_locked_until row' = None"
      by (auto simp: quiet_def)
    from only_path [OF this] obtain e :: env where "e = quiet 50" and "100 \<le> now_check e"
      by auto
    then show False
      by (simp add: quiet_def)
  qed
  from h1 h2 before after handled positive negative show ?thesis
    by blast
qed

text \<open>
  Claim C4 as stated fails when the store raises inside the lock check: before the lock
  time \<open>is_account_locked\<close> then answers false, and a login with the right password
  goes on to \<open>reset_failed_login\<close>, which clears a lock that is still in the future.
\<close>

theorem lock_cleared_before_expiry_on_store_error:
  "is_account_locked True 50 ''alice'' (store_of (alice 5 (Some 100))) =
     (False, store_of (alice 5 (Some 100))) \<and>
   flash (fst (login example_check (raising_lock_check 50) ''alice'' ''Abc12345!'' ''1.2.3.4''
                 (store_of (alice 5 (Some 100))))) = (''Login successful!'', ''success'') \<and>
   map account_locked_until
     (users (snd (login example_check (raising_lock_check 50) ''alice'' ''Abc12345!'' ''1.2.3.4''
                    (store_of (alice 5 (Some 100)))))) = [None]"
  by code_simp

text \<open>
  Claim C9. When the store raises inside the lock check, \<open>is_account_locked\<close> answers
  false and changes nothing, where the check without the error answers true; a login
  with the right password on an account whose lock is still in the future then
  succeeds.
\<close>

theorem lock_check_fails_open:
  assumes "lock_check_raises e" and "\<not> select_raises e"
    and "select_user (strip n) d = Some row" and "account_locked_until row = Some lock_time"
    and "now_check e < lock_time" and "chk (password_hash row) p"
    and "strip n \<noteq> []" and "p \<noteq> []"
  shows "is_account_locked (lock_check_raises e) (now_check e) (strip n) d = (False, d) \<and>
         is_account_locked False (now_check e) (strip n) d = (True, d) \<and>
         fst (login chk e n p ip d) = login_successful row"
  using assms by (simp add: login_def Let_def is_account_locked_def)

theorem lock_check_fails_open_witness:
  "now_check ((quiet 50)\<lparr>lock_check_raises := True\<rparr>) < 100 \<and>
   example_check (password_hash (alice 5 (Some 100))) ''Abc12345!'' \<and>
   is_account_locked False 50 ''alice'' (store_of (alice 5 (Some 100))) =
     (True, store_of (alice 5 (Some 100))) \<and>
   fst (login example_check ((quiet 50)\<lparr>lock_check_raises := True\<rparr>) ''alice'' ''Abc12345!''
          ''1.2.3.4'' (store_of (alice 5 (Some 100)))) = login_successful (alice 5 (Some 100))"
proof -
  let ?e = "(quiet 50)\<lparr>lock_check_raises := True\<rparr>"
  have h1: "lock_check_raises ?e" and h2: "\<not> select_raises ?e"
    by (simp_all add: quiet_def)
  have h3: "select_user (strip ''alice'') (store_of (alice 5 (Some 100))) = Some (alice 5 (Some 100))"
    by (simp add: strip_alice select_alice)
  have h4: "account_locked_until (alice 5 (Some 100)) = Some 100"
    by (simp add: alice_def)
  have h5: "now_check ?e < 100"
    by (simp add: quiet_def)
  have h6: "example_check (password_hash (alice 5 (Some 100))) ''Abc12345!''"
    by (simp add: example_check_def alice_def)
  have h7: "strip ''alice'' \<noteq> []" and h8: "''Abc12345!'' \<noteq> []"
    by (simp_all add: strip_alice)
  have n: "now_check ?e = 50"
    by (simp add: quiet_def)
  show ?thesis
    using h5 h6 lock_check_fails_open [where chk = example_check and ip = "''1.2.3.4''", OF h1 h2 h3 h4 h5 h6 h7 h8]
    by (simp add: strip_alice n)
qed

text \<open>
  Claim C2, as amended. After a successful login in which the store does not raise
  inside \<open>reset_failed_login\<close>, the account has \<open>failed_login_attempts = 0\<close>, no
  \<open>account_locked_until\<close> and \<open>last_login\<close> stamped, whatever the counter and the lock
  were before.
\<close>

theorem successful_login_resets:
  assumes "flash (fst (login chk e n p ip d)) = (''Login successful!'', ''success'')"
    and "\<not> update_raises e"
  shows "(\<exists>row. select_user (strip n) (snd (login chk e n p ip d)) = Some row \<and>
            failed_login_attempts row = 0 \<and> account_locked_until row = None \<and>
            last_login row = Some (current_timestamp e)) \<and>
         (\<forall>u\<in>set (users (snd (login chk e n p ip d))). username u = strip n \<longrightarrow>
            failed_login_attempts u = 0 \<and> account_locked_until u = None \<and>
            last_login u = Some (current_timestamp e))"
proof -
  from login_success_cases [OF assms(1)] obtain row where
    row: "select_user (strip n) (snd (is_account_locked (lock_check_raises e) (now_check e) (strip n) d)) = Some row"
    and eq: "login chk e n p ip d = (login_successful row,
            log_login_attempt (log_raises e) (current_timestamp e) (strip n) ip True
              (reset_failed_login (update_raises e) (current_timestamp e) (strip n)
                 (snd (is_account_locked (lock_check_raises e) (now_check e) (strip n) d))))"
    by blast
  from row assms(2)
  have "\<exists>r. select_user (strip n) (snd (login chk e n p ip d)) = Some r \<and>
            failed_login_attempts r = 0 \<and> account_locked_until r = None \<and>
            last_login r = Some (current_timestamp e)"
    by (simp add: eq reset_failed_login_def select_user_update)
  moreover from assms(2)
  have "\<forall>u\<in>set (users (snd (login chk e n p ip d))). username u = strip n \<longrightarrow>
            failed_login_attempts u = 0 \<and> account_locked_until u = None \<and>
            last_login u = Some (current_timestamp e)"
    by (auto simp: eq reset_failed_login_def update_users_def split: if_splits)
  ultimately show ?thesis by blast
qed

theorem successful_login_resets_witness:
  "flash (fst (login example_check (quiet 7) ''alice'' ''Abc12345!'' ''1.2.3.4''
                 (store_of (alice 0 None)))) = (''Login successful!'', ''success'') \<and>
   (\<exists>row. select_user ''alice''
             (snd (login example_check (quiet 7) ''alice'' ''Abc12345!'' ''1.2.3.4''
                     (store_of (alice 0 None)))) = Some row \<and>
          failed_login_attempts row = 0 \<and> account_locked_until row = None \<and>
          last_login row = Some 7)"
proof -
  have h1: "flash (fst (login example_check (quiet 7) ''alice'' ''Abc12345!'' ''1.2.3.4''
                 (store_of (alice 0 None)))) = (''Login successful!'', ''success'')"
    by (simp add: login_def Let_def strip_alice is_account_locked_def select_user_def
        store_of_def quiet_def example_check_def alice_def login_successful_def)
  have h2: "\<not> update_raises (quiet 7)"
    by (simp add: quiet_def)
  have t: "current_timestamp (quiet 7) = 7"
    by (simp add: quiet_def)
  show ?thesis
    using h1 successful_login_resets [OF h1 h2]
    by (simp add: strip_alice t)
qed

text \<open>
  Claim C2 as stated fails when the store raises inside \<open>reset_failed_login\<close>: the error
  is swallowed, the login is still answered with \<open>Login successful!\<close>, and the row keeps
  its counter of 3 and its empty \<open>last_login\<close>.
\<close>

theorem successful_login_without_reset:
  "flash (fst (login example_check (raising_update 7) ''alice'' ''Abc12345!'' ''1.2.3.4''
                 (store_of (alice 3 None)))) = (''Login successful!'', ''success'') \<and>
   users (snd (login example_check (raising_update 7) ''alice'' ''Abc12345!'' ''1.2.3.4''
                 (store_of (alice 3 None)))) = [alice 3 None] \<and>
   failed_login_attempts (alice 3 None) = 3 \<and> last_login (alice 3 None) = None"
  by code_simp



text \<open>
  Claim C8, as amended. For a username that is not empty once stripped and has no
  account, and a password that is not empty, the store not raising: the login answers
  \<open>Invalid username or password\<close>, appends exactly one failed attempt to the log and
  leaves the accounts as they are.
\<close>

theorem unknown_user_login_frame:
  assumes "strip n \<noteq> []" and "p \<noteq> []" and "select_user (strip n) d = None"
    and "\<not> select_raises e" and "\<not> log_raises e"
  shows "login chk e n p ip d =
    (invalid_credentials,
     d\<lparr>login_attempts := login_attempts d @
        [\<lparr>attempt_username = strip n, ip_address = ip, success = False,
          timestamp = current_timestamp e\<rparr>]\<rparr>)"
  using assms
  by (simp add: login_def Let_def is_account_locked_absent increment_absent log_login_attempt_def)

theorem unknown_user_login_frame_witness:
  "select_user ''ghost'' (store_of (alice 0 None)) = None \<and>
   login example_check (quiet 7) ''ghost'' ''guess'' ''1.2.3.4'' (store_of (alice 0 None)) =
     (invalid_credentials,
      \<lparr>users = [alice 0 None],
       login_attempts = [\<lparr>attempt_username = ''ghost'', ip_address = ''1.2.3.4'',
                          success = False, timestamp = 7\<rparr>]\<rparr>)"
proof -
  have g: "strip ''ghost'' = ''ghost''"
    by (simp add: strip_def isspace_def in_range_def)
  have h1: "strip ''ghost'' \<noteq> []" and h2: "''guess'' \<noteq> []"
    by (simp_all add: g)
  have h3: "select_user (strip ''ghost'') (store_of (alice 0 None)) = None"
    by (simp add: g select_user_def store_of_def alice_def)
  have h4: "\<not> select_raises (quiet 7)" and h5: "\<not> log_raises (quiet 7)"
    by (simp_all add: quiet_def)
  have t: "current_timestamp (quiet 7) = 7"
    by (simp add: quiet_def)
  show ?thesis
    using h3 unknown_user_login_frame [where chk = example_check and ip = "''1.2.3.4''", OF h1 h2 h3 h4 h5]
    by (simp add: g t store_of_def)
qed

text \<open>
  Claim C8 as stated fails for the empty password: the presence check returns before
  anything is logged, and the response is not \<open>Invalid username or password\<close>.
\<close>

theorem unknown_user_empty_password_not_logged:
  "select_user ''ghost'' init_db = None \<and> strip ''ghost'' = ''ghost'' \<and>
   fst (login example_check (quiet 0) ''ghost'' [] ''1.2.3.4'' init_db) \<noteq> invalid_credentials \<and>
   login_attempts (snd (login example_check (quiet 0) ''ghost'' [] ''1.2.3.4'' init_db)) =
     login_attempts init_db"
  by (simp add: login_def Let_def select_user_def init_db_def fields_required_def
      invalid_credentials_def flash_render_def strip_def isspace_def in_range_def)

section \<open>Five failures lock the account\<close>

lemma run_append: "run gen chk (rs @ [r]) d = handle gen chk r (run gen chk rs d)"
  by (simp add: run_def)

lemma failed_attempt_step:
  assumes "select_user (strip n) d = Some row" and "account_locked_until row = None"
    and "\<not> chk (password_hash row) p" and "p \<noteq> []" and "strip n \<noteq> []"
    and "\<not> select_raises e" and "\<not> update_raises e"
  shows "fst (login chk e n p ip d) = invalid_credentials \<and>
         select_user (strip n) (snd (login chk e n p ip d)) =
           Some (if failed_login_attempts row + 1 \<ge> 5
                 then row\<lparr>failed_login_attempts := failed_login_attempts row + 1,
                          account_locked_until := Some (now_fail e + minutes_30)\<rparr>
                 else row\<lparr>failed_login_attempts := failed_login_attempts row + 1\<rparr>)"
  using assms
  by (simp add: login_def Let_def is_account_locked_def select_user_increment)

lemma failed_attempts_run:
  assumes "select_user (strip n) d = Some row" and "account_locked_until row = None"
    and "strip n \<noteq> []"
    and "failed_login_attempts row + int (length attempts) < 5"
    and "\<forall>(e, p, ip)\<in>set attempts. p \<noteq> [] \<and> \<not> chk (password_hash row) p \<and>
           \<not> select_raises e \<and> \<not> update_raises e"
  shows "select_user (strip n) (run gen chk (map (\<lambda>(e, p, ip). Login e n p ip) attempts) d) =
           Some (row\<lparr>failed_login_attempts := failed_login_attempts row + int (length attempts)\<rparr>)"
  using assms(4,5)
proof (induction attempts rule: rev_induct)
  case Nil
  with assms(1) show ?case by (simp add: run_def)
next
  case (snoc a attempts)
  obtain e p ip where a: "a = (e, p, ip)" by (cases a)
  let ?d = "run gen chk (map (\<lambda>(e, p, ip). Login e n p ip) attempts) d"
  let ?row = "row\<lparr>failed_login_attempts := failed_login_attempts row + int (length attempts)\<rparr>"
  from snoc have sel: "select_user (strip n) ?d = Some ?row"
    by simp
  have good: "p \<noteq> [] \<and> \<not> chk (password_hash ?row) p \<and> \<not> select_raises e \<and> \<not> update_raises e"
    using snoc.prems(2) a by simp
  have "select_user (strip n) (snd (login chk e n p ip ?d)) =
           Some (if failed_login_attempts ?row + 1 \<ge> 5
                 then ?row\<lparr>failed_login_attempts := failed_login_attempts ?row + 1,
                          account_locked_until := Some (now_fail e + minutes_30)\<rparr>
                 else ?row\<lparr>failed_login_attempts := failed_login_attempts ?row + 1\<rparr>)"
    using failed_attempt_step [of n ?d ?row chk p e ip] sel assms(2,3) good by simp
  with snoc.prems(1) show ?case
    by (simp add: a run_append add.assoc)
qed

text \<open>
  Claim C1, as amended. An account starts with \<open>failed_login_attempts = 0\<close> and no
  lock. After five consecutive logins for its username with non-empty wrong passwords,
  the store raising neither in their lookups nor in their counter updates, a further
  login whose lock check does not raise and reads the clock before the fifth failure's
  time plus 30 minutes is never answered with \<open>Login successful!\<close>; with a non-empty
  password, right or wrong, it is answered with the locked message.
\<close>

theorem sixth_attempt_locked:
  assumes "select_user (strip n) d = Some row" and "failed_login_attempts row = 0"
    and "account_locked_until row = None" and "strip n \<noteq> []"
    and "length attempts = 5"
    and "\<forall>(e, p, ip)\<in>set attempts. p \<noteq> [] \<and> \<not> chk (password_hash row) p \<and>
           \<not> select_raises e \<and> \<not> update_raises e"
    and "\<not> lock_check_raises e_next"
    and "now_check e_next < now_fail (fst (last attempts)) + minutes_30"
  shows "flash (fst (login chk e_next n p_next ip_next
                  (run gen chk (map (\<lambda>(e, p, ip). Login e n p ip) attempts) d))) \<noteq>
           (''Login successful!'', ''success'') \<and>
         (p_next \<noteq> [] \<longrightarrow>
            fst (login chk e_next n p_next ip_next
                  (run gen chk (map (\<lambda>(e, p, ip). Login e n p ip) attempts) d)) = locked)"
proof -
  from assms(5) obtain first4 a where split: "attempts = first4 @ [a]" and len: "length first4 = 4"
    by (cases attempts rule: rev_cases) auto
  obtain e5 p5 ip5 where a: "a = (e5, p5, ip5)" by (cases a)
  let ?d4 = "run gen chk (map (\<lambda>(e, p, ip). Login e n p ip) first4) d"
  let ?d5 = "run gen chk (map (\<lambda>(e, p, ip). Login e n p ip) attempts) d"
  let ?row4 = "row\<lparr>failed_login_attempts := 4\<rparr>"
  let ?row5 = "row\<lparr>failed_login_attempts := 5, account_locked_until := Some (now_fail e5 + minutes_30)\<rparr>"
  have "select_user (strip n) ?d4 =
      Some (row\<lparr>failed_login_attempts := failed_login_attempts row + int (length first4)\<rparr>)"
    using assms(1,2,3,4,6) len split by (intro failed_attempts_run) auto
  then have sel4: "select_user (strip n) ?d4 = Some ?row4"
    using assms(2) len by simp
  have good5: "p5 \<noteq> [] \<and> \<not> chk (password_hash ?row4) p5 \<and> \<not> select_raises e5 \<and> \<not> update_raises e5"
    using assms(6) split a by simp
  have d5: "?d5 = snd (login chk e5 n p5 ip5 ?d4)"
    by (simp add: split a run_append)
  have sel5: "select_user (strip n) ?d5 = Some ?row5"
    using failed_attempt_step [of n ?d4 ?row4 chk p5 e5 ip5] sel4 assms(3,4) good5
    by (simp add: d5)
  have window: "now_check e_next < now_fail e5 + minutes_30"
    using assms(8) split a by simp
  have locked_: "p_next \<noteq> [] \<Longrightarrow> login chk e_next n p_next ip_next ?d5 =
      (locked, log_login_attempt (log_raises e_next) (current_timestamp e_next) (strip n) ip_next False ?d5)"
    using sel5 window assms(4,7) by (intro login_locked) auto
  have empty: "p_next = [] \<Longrightarrow> login chk e_next n p_next ip_next ?d5 = (fields_required, ?d5)"
    by (simp add: login_def)
  show ?thesis
    using locked_ empty
    by (cases "p_next = []") (simp_all add: locked_def fields_required_def flash_render_def)
qed

theorem sixth_attempt_locked_witness:
  "example_check (password_hash (alice 0 None)) ''Abc12345!'' \<and>
   fst (login example_check (quiet 1800000009) ''alice'' ''Abc12345!'' ''1.2.3.4''
          (run example_hash example_check
             (map (\<lambda>(e, p, ip). Login e ''alice'' p ip) (replicate 5 (quiet 10, ''wrong'', ''1.2.3.4'')))
             (store_of (alice 0 None)))) = locked"
proof -
  have h1: "select_user (strip ''alice'') (store_of (alice 0 None)) = Some (alice 0 None)"
    by (simp add: strip_alice select_alice)
  have h2: "failed_login_attempts (alice 0 None) = 0" and h3: "account_locked_until (alice 0 None) = None"
    by (simp_all add: alice_def)
  have h4: "strip ''alice'' \<noteq> []"
    by (simp add: strip_alice)
  have h5: "length (replicate 5 (quiet 10, ''wrong'', ''1.2.3.4'')) = 5"
    by simp
  have h6: "\<forall>(e, p, ip)\<in>set (replicate 5 (quiet 10, ''wrong'', ''1.2.3.4'')).
      p \<noteq> [] \<and> \<not> example_check (password_hash (alice 0 None)) p \<and>
      \<not> select_raises e \<and> \<not> update_raises e"
    by (simp add: example_check_def alice_def quiet_def)
  have h7: "\<not> lock_check_raises (quiet 1800000009)"
    by (simp add: quiet_def)
  have h8: "now_check (quiet 1800000009) <
      now_fail (fst (last (replicate 5 (quiet 10, ''wrong'', ''1.2.3.4'')))) + minutes_30"
    by (simp add: quiet_def minutes_30_def)
  have c: "example_check (password_hash (alice 0 None)) ''Abc12345!''"
    by (simp add: example_check_def alice_def)
  have ne: "''Abc12345!'' \<noteq> []"
    by simp
  note t = sixth_attempt_locked
    [where chk = example_check and gen = example_hash and p_next = "''Abc12345!''" and ip_next = "''1.2.3.4''",
     OF h1 h2 h3 h4 h5 h6 h7 h8]
  from c t [THEN conjunct2, THEN mp, OF ne] show ?thesis
    by (rule conjI)
qed

text \<open>
  Claim C1 as stated fails when the store raises. With five wrong-password logins behind
  it and the lock still in the future, a login with the right password whose lock check
  raises is answered with \<open>Login successful!\<close>. When the counter update of one of the
  five raises, that login is still answered with \<open>Invalid username or password\<close>, the
  counter ends at 4 and the next login with the right password succeeds. An empty
  password meets the presence check, not the lock.
\<close>

theorem sixth_attempt_succeeds_on_store_error:
  "fst (login example_check (raising_lock_check 11) ''alice'' ''Abc12345!'' ''1.2.3.4''
          (run example_hash example_check
             (replicate 5 (Login (quiet 10) ''alice'' ''wrong'' ''1.2.3.4''))
             (store_of (alice 0 None)))) =
     login_successful (alice 5 (Some 1800000010)) \<and>
   fst (login example_check (raising_update 10) ''alice'' ''wrong'' ''1.2.3.4''
          (run example_hash example_check
             (replicate 4 (Login (quiet 10) ''alice'' ''wrong'' ''1.2.3.4''))
             (store_of (alice 0 None)))) = invalid_credentials \<and>
   fst (login example_check (quiet 11) ''alice'' ''Abc12345!'' ''1.2.3.4''
          (run example_hash example_check
             (replicate 4 (Login (quiet 10) ''alice'' ''wrong'' ''1.2.3.4'') @
              [Login (raising_update 10) ''alice'' ''wrong'' ''1.2.3.4''])
             (store_of (alice 0 None)))) =
     login_successful (alice 4 None) \<and>
   fst (login example_check (quiet 11) ''alice'' [] ''1.2.3.4''
          (run example_hash example_check
             (replicate 5 (Login (quiet 10) ''alice'' ''wrong'' ''1.2.3.4''))
             (store_of (alice 0 None)))) = fields_required \<and>
   fields_required \<noteq> locked"
  by code_simp

section \<open>The order of the registration checks\<close>

text \<open>
  Claim C7. \<open>register\<close> answers with the error of the first check that fails, in the
  order presence, username syntax, email syntax, password strength, confirmation,
  uniqueness, whatever the later checks would say. When one of the first five fails, the
  answer depends neither on the store nor on whether it raises, and the store is returned
  as it was: the uniqueness query is not made.
\<close>

theorem register_first_failing_check:
  "(strip un = [] \<or> strip em = [] \<or> pw = [] \<longrightarrow>
      register gen e un em pw cf d = (register_error ''All fields are required'', d)) \<and>
   (strip un \<noteq> [] \<and> strip em \<noteq> [] \<and> pw \<noteq> [] \<and> \<not> fst (validate_username (strip un)) \<longrightarrow>
      register gen e un em pw cf d = (register_error (snd (validate_username (strip un))), d)) \<and>
   (strip un \<noteq> [] \<and> strip em \<noteq> [] \<and> pw \<noteq> [] \<and> fst (validate_username (strip un)) \<and>
    \<not> validate_email (strip em) \<longrightarrow>
      register gen e un em pw cf d = (register_error ''Invalid email format'', d)) \<and>
   (strip un \<noteq> [] \<and> strip em \<noteq> [] \<and> pw \<noteq> [] \<and> fst (validate_username (strip un)) \<and>
    validate_email (strip em) \<and> \<not> fst (validate_password pw) \<longrightarrow>
      register gen e un em pw cf d = (register_error (snd (validate_password pw)), d)) \<and>
   (strip un \<noteq> [] \<and> strip em \<noteq> [] \<and> pw \<noteq> [] \<and> fst (validate_username (strip un)) \<and>
    validate_email (strip em) \<and> fst (validate_password pw) \<and> pw \<noteq> cf \<longrightarrow>
      register gen e un em pw cf d = (register_error ''Passwords do not match'', d)) \<and>
   (strip un \<noteq> [] \<and> strip em \<noteq> [] \<and> pw \<noteq> [] \<and> fst (validate_username (strip un)) \<and>
    validate_email (strip em) \<and> fst (validate_password pw) \<and> pw = cf \<and> \<not> select_raises e \<and>
    (\<exists>u\<in>set (users d). username u = strip un \<or> email u = strip em) \<longrightarrow>
      register gen e un em pw cf d = (register_error ''Username or email already exists'', d)) \<and>
   (strip un \<noteq> [] \<and> strip em \<noteq> [] \<and> pw \<noteq> [] \<and> fst (validate_username (strip un)) \<and>
    validate_email (strip em) \<and> fst (validate_password pw) \<and> pw = cf \<and> \<not> select_raises e \<and>
    \<not> (\<exists>u\<in>set (users d). username u = strip un \<or> email u = strip em) \<longrightarrow>
      register gen e un em pw cf d =
        (registration_successful,
         insert_user (current_timestamp e) (strip un) (strip em) (gen pw) d))"
  by (auto simp: register_def Let_def find_None_iff)

lemma validate_username_alice: "validate_username ''alice'' = (True, ''Username is valid'')"
  by (simp add: validate_username_def re_match_username_def at_dollar_def word_char_def
      lower_def upper_def digit_def in_range_def)

lemma validate_username_ab:
  "validate_username ''ab'' = (False, ''Username must be between 3 and 20 characters'')"
  by (simp add: validate_username_def)

lemma validate_email_alice: "validate_email ''alice@example.com''"
  by (simp add: validate_email_def re_match_email_def re_tld_def at_dollar_def
      email_local_char_def email_domain_char_def letter_def lower_def upper_def digit_def
      in_range_def)

lemma validate_email_bad: "\<not> validate_email ''bad''"
  by (simp add: validate_email_def re_match_email_def re_tld_def at_dollar_def
      email_local_char_def email_domain_char_def letter_def lower_def upper_def digit_def
      in_range_def)

lemma validate_password_good: "validate_password ''Abc12345!'' = (True, ''Password is valid'')"
  by (simp add: validate_password_def special_def special_chars_def lower_def upper_def
      digit_def in_range_def)

lemma validate_password_x:
  "validate_password ''x'' = (False, ''Password must be at least 8 characters long'')"
  by (simp add: validate_password_def)

lemma strip_examples:
  "strip '''' = ''''" "strip ''ab'' = ''ab''" "strip ''bad'' = ''bad''"
  "strip ''alice@example.com'' = ''alice@example.com''"
  by (simp_all add: strip_def isspace_def in_range_def)

theorem register_first_failing_check_witness:
  "register example_hash (quiet 0) '''' ''bad'' ''x'' ''y'' (store_of (alice 0 None)) =
     (register_error ''All fields are required'', store_of (alice 0 None)) \<and>
   register example_hash (quiet 0) ''ab'' ''bad'' ''x'' ''y'' (store_of (alice 0 None)) =
     (register_error ''Username must be between 3 and 20 characters'', store_of (alice 0 None)) \<and>
   register example_hash (quiet 0) ''alice'' ''bad'' ''x'' ''y'' (store_of (alice 0 None)) =
     (register_error ''Invalid email format'', store_of (alice 0 None)) \<and>
   register example_hash (quiet 0) ''alice'' ''alice@example.com'' ''x'' ''y'' (store_of (alice 0 None)) =
     (register_error ''Password must be at least 8 characters long'', store_of (alice 0 None)) \<and>
   register example_hash (quiet 0) ''alice'' ''alice@example.com'' ''Abc12345!'' ''y''
       (store_of (alice 0 None)) =
     (register_error ''Passwords do not match'', store_of (alice 0 None)) \<and>
   register example_hash (quiet 0) ''alice'' ''alice@example.com'' ''Abc12345!'' ''Abc12345!''
       (store_of (alice 0 None)) =
     (register_error ''Username or email already exists'', store_of (alice 0 None))"
proof -
  have q: "\<not> select_raises (quiet 0)"
    by (simp add: quiet_def)
  have taken: "\<exists>u\<in>set (users (store_of (alice 0 None))).
      username u = ''alice'' \<or> email u = ''alice@example.com''"
    by (simp add: store_of_def alice_def)
  show ?thesis
    using q taken
      register_first_failing_check [of "''''" "''bad''" "''x''" example_hash "quiet 0" "''y''"
        "store_of (alice 0 None)"]
      register_first_failing_check [of "''ab''" "''bad''" "''x''" example_hash "quiet 0" "''y''"
        "store_of (alice 0 None)"]
      register_first_failing_check [of "''alice''" "''bad''" "''x''" example_hash "quiet 0" "''y''"
        "store_of (alice 0 None)"]
      register_first_failing_check [of "''alice''" "''alice@example.com''" "''x''" example_hash
        "quiet 0" "''y''" "store_of (alice 0 None)"]
      register_first_failing_check [of "''alice''" "''alice@example.com''" "''Abc12345!''"
        example_hash "quiet 0" "''y''" "store_of (alice 0 None)"]
      register_first_failing_check [of "''alice''" "''alice@example.com''" "''Abc12345!''"
        example_hash "quiet 0" "''Abc12345!''" "store_of (alice 0 None)"]
    by (simp add: strip_examples strip_alice validate_username_alice validate_username_ab
        validate_email_alice validate_email_bad validate_password_good validate_password_x)
qed

section \<open>The bound on the failure counter\<close>

lemma unique_row:
  assumes "distinct (map username us)" and "u \<in> set us" and "v \<in> set us"
    and "username u = username v"
  shows "u = v"
  using assms by (meson distinct_map inj_onD)

lemma store_inv_init: "store_inv init_db"
  by (simp add: store_inv_def init_db_def)

lemma store_inv_log: "store_inv (log_login_attempt r ts n ip ok d) = store_inv d"
  by (simp add: store_inv_def)

lemma map_username_update:
  assumes "\<And>u. username (f u) = username u"
  shows "map (username \<circ> (\<lambda>u. if username u = n then f u else u)) us = map username us"
  using assms by (induction us) auto

lemma store_inv_update:
  assumes "store_inv d" and "\<And>u. username (f u) = username u"
    and "\<And>u. u \<in> set (users d) \<Longrightarrow> username u = n \<Longrightarrow>
           failed_login_attempts (f u) \<le> 5 \<and>
           (account_locked_until (f u) = None \<longrightarrow> failed_login_attempts (f u) < 5)"
  shows "store_inv (update_users n f d)"
  using assms
  by (auto simp: store_inv_def update_users_def map_username_update)

lemma store_inv_is_account_locked:
  assumes "store_inv d"
  shows "store_inv (snd (is_account_locked r now n d))"
  using assms
  by (auto simp: is_account_locked_def intro!: store_inv_update split: option.splits)

lemma open_after_check:
  assumes "store_inv d" and "fst (is_account_locked False now n d) = False"
    and "u \<in> set (users (snd (is_account_locked False now n d)))" and "username u = n"
  shows "account_locked_until u = None"
proof (cases "select_user n d")
  case None
  with assms(3,4) show ?thesis
    by (simp add: is_account_locked_absent select_user_None)
next
  case (Some row)
  note row = select_user_Some [OF Some]
  show ?thesis
  proof (cases "account_locked_until row")
    case None
    with Some assms(3) have "u \<in> set (users d)"
      by (simp add: is_account_locked_def)
    with assms(1,4) row have "u = row"
      by (auto simp: store_inv_def intro: unique_row)
    with None show ?thesis by simp
  next
    case (Some t)
    have expired: "\<not> now < t"
      using \<open>select_user n d = Some row\<close> Some assms(2)
      by (simp add: is_account_locked_def split: if_splits)
    then have "users (snd (is_account_locked False now n d)) =
        map (\<lambda>v. if username v = n
                  then v\<lparr>account_locked_until := None, failed_login_attempts := 0\<rparr> else v)
          (users d)"
      using \<open>select_user n d = Some row\<close> Some
      by (simp add: is_account_locked_def update_users_def)
    with assms(3)
    have "u \<in> (\<lambda>v. if username v = n
                  then v\<lparr>account_locked_until := None, failed_login_attempts := 0\<rparr> else v) `
          set (users d)"
      by (simp only: set_map)
    then obtain v where
      "u = (if username v = n
            then v\<lparr>account_locked_until := None, failed_login_attempts := 0\<rparr> else v)"
      by (rule imageE)
    with assms(4) show ?thesis
      by (cases "username v = n") simp_all
  qed
qed

lemma store_inv_reset:
  assumes "store_inv d"
  shows "store_inv (reset_failed_login r ts n d)"
  using assms by (auto simp: reset_failed_login_def intro!: store_inv_update)

lemma users_map_cong:
  assumes "\<And>u. u \<in> set (users d) \<Longrightarrow> f u = g u"
  shows "d\<lparr>users := map f (users d)\<rparr> = d\<lparr>users := map g (users d)\<rparr>"
proof -
  have "map f (users d) = map g (users d)"
    by (rule map_cong) (simp_all add: assms)
  then show ?thesis by simp
qed

lemma increment_unique:
  assumes "distinct (map username (users d))"
  shows "increment_failed_login False now n d =
     update_users n
       (\<lambda>u. if failed_login_attempts u + 1 \<ge> 5
            then u\<lparr>failed_login_attempts := failed_login_attempts u + 1,
                   account_locked_until := Some (now + minutes_30)\<rparr>
            else u\<lparr>failed_login_attempts := failed_login_attempts u + 1\<rparr>) d"
proof (cases "select_user n d")
  case None
  then show ?thesis
    by (simp add: increment_failed_login_def update_users_absent)
next
  case (Some row)
  note row = select_user_Some [OF Some]
  have only: "\<And>u. u \<in> set (users d) \<Longrightarrow> username u = n \<Longrightarrow> u = row"
    using assms row by (auto intro: unique_row)
  have d1: "select_user n
      (update_users n (\<lambda>u. u\<lparr>failed_login_attempts := failed_login_attempts u + 1\<rparr>) d) =
      Some (row\<lparr>failed_login_attempts := failed_login_attempts row + 1\<rparr>)"
    by (simp add: select_user_update Some)
  have inc: "increment_failed_login False now n d =
      (if failed_login_attempts row + 1 \<ge> 5
       then update_users n (\<lambda>u. u\<lparr>account_locked_until := Some (now + minutes_30)\<rparr>)
              (update_users n (\<lambda>u. u\<lparr>failed_login_attempts := failed_login_attempts u + 1\<rparr>) d)
       else update_users n (\<lambda>u. u\<lparr>failed_login_attempts := failed_login_attempts u + 1\<rparr>) d)"
    by (simp add: increment_failed_login_def Let_def d1)
  have both: "map (\<lambda>u. if username u = n
                      then u\<lparr>account_locked_until := Some (now + minutes_30)\<rparr> else u)
        (map (\<lambda>u. if username u = n
                   then u\<lparr>failed_login_attempts := failed_login_attempts u + 1\<rparr> else u)
           (users d)) =
      map (\<lambda>u. if username u = n
                then if failed_login_attempts u + 1 \<ge> 5
                     then u\<lparr>failed_login_attempts := failed_login_attempts u + 1,
                            account_locked_until := Some (now + minutes_30)\<rparr>
                     else u\<lparr>failed_login_attempts := failed_login_attempts u + 1\<rparr>
                else u) (users d)"
    if "failed_login_attempts row + 1 \<ge> 5"
    using that by (auto dest: only)
  have one: "map (\<lambda>u. if username u = n
                   then u\<lparr>failed_login_attempts := failed_login_attempts u + 1\<rparr> else u)
           (users d) =
      map (\<lambda>u. if username u = n
                then if failed_login_attempts u + 1 \<ge> 5
                     then u\<lparr>failed_login_attempts := failed_login_attempts u + 1,
                            account_locked_until := Some (now + minutes_30)\<rparr>
                     else u\<lparr>failed_login_attempts := failed_login_attempts u + 1\<rparr>
                else u) (users d)"
    if "\<not> failed_login_attempts row + 1 \<ge> 5"
    using that by (auto dest: only)
  show ?thesis
  proof (cases "failed_login_attempts row + 1 \<ge> 5")
    case True
    then show ?thesis
      unfolding inc update_users_def using both [OF True] by (simp del: map_map)
  next
    case False
    then show ?thesis
      unfolding inc update_users_def using one [OF False] by (simp del: map_map)
  qed
qed

lemma store_inv_increment:
  assumes "store_inv d"
    and "\<And>u. u \<in> set (users d) \<Longrightarrow> username u = n \<Longrightarrow> account_locked_until u = None"
  shows "store_inv (increment_failed_login r now n d)"
proof (cases r)
  case True
  with assms(1) show ?thesis by (simp add: increment_failed_login_def)
next
  case False
  have "distinct (map username (users d))"
    using assms(1) by (simp add: store_inv_def)
  note eq = increment_unique [OF this]
  have small: "\<And>u. u \<in> set (users d) \<Longrightarrow> username u = n \<Longrightarrow> failed_login_attempts u < 5"
    using assms by (auto simp: store_inv_def)
  have "store_inv (update_users n
       (\<lambda>u. if failed_login_attempts u + 1 \<ge> 5
            then u\<lparr>failed_login_attempts := failed_login_attempts u + 1,
                   account_locked_until := Some (now + minutes_30)\<rparr>
            else u\<lparr>failed_login_attempts := failed_login_attempts u + 1\<rparr>) d)"
    by (rule store_inv_update [OF assms(1)]) (auto dest: small)
  with False eq show ?thesis by simp
qed

lemma store_inv_insert:
  assumes "store_inv d" and "find (\<lambda>u. username u = n \<or> email u = m) (users d) = None"
  shows "store_inv (insert_user ts n m h d)"
  using assms by (auto simp: store_inv_def insert_user_def find_None_iff)

lemma store_inv_register:
  assumes "store_inv d"
  shows "store_inv (snd (register gen e un em pw cf d))"
  using assms by (auto simp: register_def Let_def intro: store_inv_insert)

lemma store_inv_login:
  assumes "store_inv d" and "\<not> lock_check_raises e"
  shows "store_inv (snd (login chk e un pw ip d))"
proof -
  let ?c = "is_account_locked False (now_check e) (strip un) d"
  have inv: "store_inv (snd ?c)"
    using assms(1) by (rule store_inv_is_account_locked)
  have inc: "fst ?c = False \<Longrightarrow>
      store_inv (increment_failed_login (update_raises e) (now_fail e) (strip un) (snd ?c))"
    by (rule store_inv_increment [OF inv]) (rule open_after_check [OF assms(1)])
  show ?thesis
    using assms inv inc
    by (simp add: login_def Let_def case_prod_beta store_inv_log store_inv_reset
        split: bool.splits option.splits)
qed

lemma store_inv_handle:
  assumes "store_inv d" and "\<not> lock_check_raises (request_env r)"
  shows "store_inv (handle gen chk r d)"
  using assms by (cases r) (simp_all add: store_inv_register store_inv_login)

lemma store_inv_run:
  assumes "store_inv d" and "\<forall>r\<in>set rs. \<not> lock_check_raises (request_env r)"
  shows "store_inv (run gen chk rs d)"
  using assms
proof (induction rs arbitrary: d)
  case Nil
  then show ?case by (simp add: run_def)
next
  case (Cons r rs)
  then have "store_inv (handle gen chk r d)"
    by (simp add: store_inv_handle)
  with Cons show ?case by (simp add: run_def)
qed

lemma example_run:
  "map failed_login_attempts
     (users (run example_hash example_check
        (Register (quiet 0) ''alice'' ''alice@example.com'' ''Abc12345!'' ''Abc12345!'' #
         replicate 7 (Login (quiet 10) ''alice'' ''wrong'' ''1.2.3.4'')) init_db)) = [5]"
  by code_simp

text \<open>
  Claim C10, as amended. In every store reached from the empty one by a sequence of
  register and login requests, handled one after the other with no error raised inside
  a lock check, every account's \<open>failed_login_attempts\<close> is at most 5.
\<close>

theorem failed_login_attempts_bounded:
  assumes "\<forall>r\<in>set rs. \<not> lock_check_raises (request_env r)"
  shows "\<forall>u\<in>set (users (run gen chk rs init_db)). failed_login_attempts u \<le> 5"
  using store_inv_run [OF store_inv_init assms] by (simp add: store_inv_def)

theorem failed_login_attempts_bounded_witness:
  "map failed_login_attempts
     (users (run example_hash example_check
        (Register (quiet 0) ''alice'' ''alice@example.com'' ''Abc12345!'' ''Abc12345!'' #
         replicate 7 (Login (quiet 10) ''alice'' ''wrong'' ''1.2.3.4'')) init_db)) = [5] \<and>
   \<not> (\<exists>u\<in>set (users (run example_hash example_check
        (Register (quiet 0) ''alice'' ''alice@example.com'' ''Abc12345!'' ''Abc12345!'' #
         replicate 7 (Login (quiet 10) ''alice'' ''wrong'' ''1.2.3.4'')) init_db)).
      5 < failed_login_attempts u)"
proof -
  have h: "\<forall>r\<in>set (Register (quiet 0) ''alice'' ''alice@example.com'' ''Abc12345!'' ''Abc12345!'' #
         replicate 7 (Login (quiet 10) ''alice'' ''wrong'' ''1.2.3.4'')).
      \<not> lock_check_raises (request_env r)"
    by (simp add: quiet_def)
  from failed_login_attempts_bounded [OF h, where gen = example_hash and chk = example_check]
  have "\<not> (\<exists>u\<in>set (users (run example_hash example_check
        (Register (quiet 0) ''alice'' ''alice@example.com'' ''Abc12345!'' ''Abc12345!'' #
         replicate 7 (Login (quiet 10) ''alice'' ''wrong'' ''1.2.3.4'')) init_db)).
      5 < failed_login_attempts u)"
    by (simp only: bex_simps not_less)
  with example_run show ?thesis
    by (rule conjI)
qed

text \<open>
  Claim C10 as stated fails when a lock check raises: after a registration and five
  wrong-password logins, a sixth wrong-password login whose lock check raises is counted,
  and the store reached from the empty one holds a counter of 6.
\<close>

theorem counter_reaches_six_on_store_error:
  "map failed_login_attempts
     (users (run example_hash example_check
        (Register (quiet 0) ''alice'' ''alice@example.com'' ''Abc12345!'' ''Abc12345!'' #
         replicate 5 (Login (quiet 10) ''alice'' ''wrong'' ''1.2.3.4'') @
         [Login (raising_lock_check 11) ''alice'' ''wrong'' ''1.2.3.4''])
        init_db)) = [6]"
  by code_simp

end
